theory Spec2Isabelle
  imports
    Main
    "HOL-Library.AList"
    "HOL-Library.Sublist"
    "HOL-Library.Char_ord"
    "HOL-Library.List_Lexorder"
    "HOL-Library.Multiset"
begin

section \<open>The marketing asset generator: data model\<close>

text \<open>
  The script \<^verbatim>\<open>src/marketing/generator.py\<close> loads a YAML document, patches it with
  \<^verbatim>\<open>--set dotted.path=value\<close> overrides, and renders every \<^verbatim>\<open>*.j2\<close> template under a
  directory tree into an output tree.

  Python strings are modelled as \<^typ>\<open>string\<close>; a character stands for the code point of
  the same number, so the model covers text whose code points lie below 256.
  The values the YAML loader can hand to the script are the constructors of \<open>pyval\<close>
  (floating-point numbers, byte strings and sets, which the script treats like the other
  scalars, are left out; the year of a date lies between 1 and 9999). A mapping has
  string keys and keeps them in insertion order, as a Python dictionary does: it is an
  association list with distinct keys, changed only through \<^const>\<open>AList.update\<close>
  (which overwrites in place and appends a new key at the end).
  The configuration is a tree: no mapping object is reachable through two different keys.
\<close>

record date =
  year :: int
  month :: int
  day :: int

record daytime =
  hour :: int
  minute :: int
  second :: int

datatype pyval =
    PNone
  | PBool bool
  | PInt int
  | PStr string
  | PDate date
  | PDateTime date daytime
  | PList "pyval list"
  | PDict "(string \<times> pyval) list"

type_synonym pydict = "(string \<times> pyval) list"

datatype py_exn =
    ValueError
  | TypeError
  | YAMLError
  | TemplateError
  | OSError

subsection \<open>String helpers of the Python runtime\<close>

text \<open>\<^verbatim>\<open>str.isspace\<close> on one character, for code points below 256.\<close>

definition is_space :: "char \<Rightarrow> bool" where
  "is_space c =
     (let n = (of_char c :: nat)
      in (9 \<le> n \<and> n \<le> 13) \<or> (28 \<le> n \<and> n \<le> 32) \<or> n = 133 \<or> n = 160)"

text \<open>\<^verbatim>\<open>str.isdigit\<close> on one character, for code points below 256: the decimal digits
  and the superscripts two, three and one.\<close>

definition is_digit :: "char \<Rightarrow> bool" where
  "is_digit c =
     (let n = (of_char c :: nat)
      in (48 \<le> n \<and> n \<le> 57) \<or> n = 178 \<or> n = 179 \<or> n = 185)"

text \<open>\<^verbatim>\<open>s.strip()\<close>: whitespace removed at both ends.\<close>

definition strip :: "string \<Rightarrow> string" where
  "strip s = rev (dropWhile is_space (rev (dropWhile is_space s)))"

text \<open>\<^verbatim>\<open>s.split(sep)\<close> for a one-character separator: never empty, \<^verbatim>\<open>"".split(".") == [""]\<close>.\<close>

fun split_on :: "char \<Rightarrow> string \<Rightarrow> string list" where
  "split_on sep [] = [[]]"
| "split_on sep (c # cs) =
     (if c = sep then [] # split_on sep cs
      else (case split_on sep cs of
              [] \<Rightarrow> [[c]]
            | w # ws \<Rightarrow> (c # w) # ws))"

text \<open>\<^verbatim>\<open>s.split(sep, 1)\<close> when \<^verbatim>\<open>sep in s\<close>: the text before the first separator and the
  text after it.\<close>

definition split_once :: "char \<Rightarrow> string \<Rightarrow> string \<times> string" where
  "split_once sep s = (takeWhile (\<lambda>c. c \<noteq> sep) s, drop 1 (dropWhile (\<lambda>c. c \<noteq> sep) s))"

section \<open>Override applier\<close>

text \<open>
  \<^verbatim>\<open>
  def set_deep_value(target, dotted_path, value):
      parts = dotted_path.split(".")
      current = target
      for key in parts[:-1]:
          if key not in current or not isinstance(current[key], dict):
              current[key] = {}
          current = current[key]
      current[parts[-1]] = value
  \<close>
  The variable \<^verbatim>\<open>current\<close> is a reference into the tree under \<^verbatim>\<open>target\<close>, and a store
  through it changes the tree. The model keeps, beside the mapping \<^verbatim>\<open>current\<close> refers to,
  the mappings that enclose it, innermost first, each with the key under which the next
  one sits; \<open>plug\<close> writes the current mapping back through them, which gives the tree as
  the caller sees it after the stores.
\<close>

type_synonym enclosing = "(pydict \<times> string) list"

fun plug :: "enclosing \<Rightarrow> pydict \<Rightarrow> pydict" where
  "plug [] current = current"
| "plug ((parent, k) # outer) current = plug outer (AList.update k (PDict current) parent)"

text \<open>The loop over \<^verbatim>\<open>parts[:-1]\<close>: when the key is bound to a mapping the cursor moves into
  it; otherwise the key is first stored with \<^verbatim>\<open>{}\<close> and the cursor moves into that.\<close>

fun walk :: "enclosing \<Rightarrow> pydict \<Rightarrow> string list \<Rightarrow> enclosing \<times> pydict" where
  "walk outer current [] = (outer, current)"
| "walk outer current (key # keys) =
     (case map_of current key of
        Some (PDict sub) \<Rightarrow> walk ((current, key) # outer) sub keys
      | _ \<Rightarrow> walk ((AList.update key (PDict []) current, key) # outer) [] keys)"

definition set_deep_value :: "pydict \<Rightarrow> string \<Rightarrow> string \<Rightarrow> pydict" where
  "set_deep_value target dotted_path v =
     (let parts = split_on CHR ''.'' dotted_path
      in case walk [] target (butlast parts) of
           (outer, current) \<Rightarrow> plug outer (AList.update (last parts) (PStr v) current))"

text \<open>
  \<^verbatim>\<open>
  def apply_overrides(data, overrides):
      for item in overrides:
          if "=" not in item:
              continue
          path, value = item.split("=", 1)
          set_deep_value(data, path.strip(), value)
  \<close>
  No operation of the two functions raises when \<^verbatim>\<open>data\<close> is a mapping, so the model is a
  total function on mappings.
\<close>

fun apply_overrides :: "pydict \<Rightarrow> string list \<Rightarrow> pydict" where
  "apply_overrides data [] = data"
| "apply_overrides data (item # items) =
     (if CHR ''='' \<notin> set item then apply_overrides data items
      else (case split_once CHR ''='' item of
              (path, v) \<Rightarrow> apply_overrides (set_deep_value data (strip path) v) items))"

text \<open>What the specification describes: the value stored under a chain of keys, each
  intermediate level being a mapping (kept when it is one, fresh and empty otherwise).\<close>

fun nested_set :: "string list \<Rightarrow> pyval \<Rightarrow> pydict \<Rightarrow> pydict" where
  "nested_set [] v d = d"
| "nested_set [k] v d = AList.update k v d"
| "nested_set (k # ks) v d =
     AList.update k
       (PDict (nested_set ks v (case map_of d k of Some (PDict sub) \<Rightarrow> sub | _ \<Rightarrow> []))) d"

text \<open>The value found by following a chain of keys through nested mappings.\<close>

fun lookup_path :: "pyval \<Rightarrow> string list \<Rightarrow> pyval option" where
  "lookup_path v [] = Some v"
| "lookup_path v (k # ks) =
     (case v of
        PDict d \<Rightarrow> (case map_of d k of None \<Rightarrow> None | Some v' \<Rightarrow> lookup_path v' ks)
      | _ \<Rightarrow> None)"

text \<open>The key path and the value of an override entry, as \<open>apply_overrides\<close> computes
  them, and the effect of one entry in the specification's terms.\<close>

definition override_path :: "string \<Rightarrow> string list" where
  "override_path item = split_on CHR ''.'' (strip (fst (split_once CHR ''='' item)))"

definition override_value :: "string \<Rightarrow> string" where
  "override_value item = snd (split_once CHR ''='' item)"

definition override_step :: "pydict \<Rightarrow> string \<Rightarrow> pydict" where
  "override_step d item =
     (if CHR ''='' \<in> set item
      then nested_set (override_path item) (PStr (override_value item)) d
      else d)"

section \<open>Configuration loader\<close>

text \<open>
  \<^verbatim>\<open>
  def load_yaml(path: Path) -> Dict[str, Any]:
      with path.open("r", encoding="utf-8") as f:
          return yaml.safe_load(f) or {}
  \<close>
  Opening the file and parsing it is the YAML library's work: the parameter
  \<open>safe_load_file\<close> gives the parsed document of a path, or the exception raised.
  \<open>truthy\<close> is Python's truth value of a loaded document.
\<close>

fun truthy :: "pyval \<Rightarrow> bool" where
  "truthy PNone = False"
| "truthy (PBool b) = b"
| "truthy (PInt i) = (i \<noteq> 0)"
| "truthy (PStr s) = (s \<noteq> [])"
| "truthy (PDate d) = True"
| "truthy (PDateTime d t) = True"
| "truthy (PList xs) = (xs \<noteq> [])"
| "truthy (PDict d) = (d \<noteq> [])"

fun is_dict :: "pyval \<Rightarrow> bool" where
  "is_dict (PDict d) = True"
| "is_dict _ = False"

type_synonym path = "string list"

definition load_yaml :: "(path \<Rightarrow> py_exn + pyval) \<Rightarrow> path \<Rightarrow> py_exn + pyval" where
  "load_yaml safe_load_file p =
     (case safe_load_file p of
        Inl e \<Rightarrow> Inl e
      | Inr doc \<Rightarrow> Inr (if truthy doc then doc else PDict []))"

section \<open>Template functions\<close>

subsection \<open>\<^verbatim>\<open>year\<close>\<close>

text \<open>\<^verbatim>\<open>str(n)\<close> for an integer: decimal digits, no padding, a minus sign when negative.\<close>

definition digit_char :: "nat \<Rightarrow> char" where
  "digit_char n = char_of (48 + n)"

fun str_nat :: "nat \<Rightarrow> string" where
  "str_nat n = (if n < 10 then [digit_char n] else str_nat (n div 10) @ [digit_char (n mod 10)])"

declare str_nat.simps [simp del]

definition str_int :: "int \<Rightarrow> string" where
  "str_int i = (if i < 0 then CHR ''-'' # str_nat (nat (- i)) else str_nat (nat i))"

text \<open>The characters \<^verbatim>\<open>0\<close> to \<^verbatim>\<open>9\<close>, and the number a string of them denotes.\<close>

definition is_decimal :: "char \<Rightarrow> bool" where
  "is_decimal c = (let n = (of_char c :: nat) in 48 \<le> n \<and> n \<le> 57)"

definition decimal_value :: "string \<Rightarrow> nat" where
  "decimal_value s = foldl (\<lambda>a c. 10 * a + (of_char c - 48)) 0 s"

text \<open>
  \<^verbatim>\<open>
  def to_year(value: Any) -> str:
      try:
          if isinstance(value, (date, datetime)):
              return str(value.year)
          if isinstance(value, str):
              if len(value) >= 4 and value[:4].isdigit():
                  return value[:4]
      except Exception:
          pass
      return ""
  \<close>
  \<open>to_year_try\<close> is the body of the \<^verbatim>\<open>try\<close>: \<open>Inr (Some s)\<close> when it returns \<open>s\<close>,
  \<open>Inr None\<close> when it falls through, \<open>Inl e\<close> when it raises.
\<close>

fun to_year_try :: "pyval \<Rightarrow> py_exn + string option" where
  "to_year_try (PDate d) = Inr (Some (str_int (year d)))"
| "to_year_try (PDateTime d t) = Inr (Some (str_int (year d)))"
| "to_year_try (PStr s) =
     (if 4 \<le> length s \<and> list_all is_digit (take 4 s) then Inr (Some (take 4 s))
      else Inr None)"
| "to_year_try _ = Inr None"

definition to_year :: "pyval \<Rightarrow> py_exn + string" where
  "to_year v =
     (case to_year_try v of
        Inl e \<Rightarrow> Inr []
      | Inr None \<Rightarrow> Inr []
      | Inr (Some s) \<Rightarrow> Inr s)"

subsection \<open>\<^verbatim>\<open>with_utm\<close>\<close>











text \<open>The keys of a list of pairs in the order of their first occurrence.\<close>

definition first_occurrences :: "'a list \<Rightarrow> 'a list" where
  "first_occurrences xs = rev (remdups (rev xs))"

subsection \<open>A reference instance of the URL library\<close>
















section \<open>Paths and template discovery\<close>

text \<open>
  A path is the list of its parts, as \<^verbatim>\<open>PurePath.parts\<close> gives them (the root \<^verbatim>\<open>/\<close> first
  when the path is absolute). \<open>path_name\<close>, \<open>path_suffix\<close>, \<open>with_suffix\<close>, \<open>parent\<close> and
  \<open>relative_to\<close> follow \<^verbatim>\<open>pathlib\<close>: the suffix of a name starts at its last dot, unless
  that dot is the first or the last character of the name.
\<close>

definition path_name :: "path \<Rightarrow> string" where
  "path_name p = (if p = [] \<or> p = [''/''] then [] else last p)"

text \<open>\<^verbatim>\<open>s.rfind(c)\<close>: the index of the last occurrence, \<open>None\<close> for \<^verbatim>\<open>-1\<close>.\<close>

definition rfind :: "char \<Rightarrow> string \<Rightarrow> nat option" where
  "rfind c s =
     (if c \<in> set s then Some (length s - 1 - length (takeWhile (\<lambda>x. x \<noteq> c) (rev s)))
      else None)"

definition name_suffix :: "string \<Rightarrow> string" where
  "name_suffix name =
     (case rfind CHR ''.'' name of
        None \<Rightarrow> []
      | Some i \<Rightarrow> if 0 < i \<and> i < length name - 1 then drop i name else [])"

definition path_suffix :: "path \<Rightarrow> string" where
  "path_suffix p = name_suffix (path_name p)"

definition with_suffix :: "path \<Rightarrow> string \<Rightarrow> py_exn + path" where
  "with_suffix p sfx =
     (if CHR ''/'' \<in> set sfx then Inl ValueError
      else if (sfx \<noteq> [] \<and> \<not> prefix ''.'' sfx) \<or> sfx = ''.'' then Inl ValueError
      else if path_name p = [] then Inl ValueError
      else (let name = path_name p;
                old_suffix = path_suffix p;
                name' = (if old_suffix = [] then name @ sfx
                         else take (length name - length old_suffix) name @ sfx)
            in Inr (butlast p @ [name'])))"

definition parent :: "path \<Rightarrow> path" where
  "parent p = (if p = [] \<or> p = [''/''] then p else butlast p)"

definition relative_to :: "path \<Rightarrow> path \<Rightarrow> py_exn + path" where
  "relative_to p other = (if prefix other p then Inr (drop (length other) p) else Inl ValueError)"

text \<open>\<^verbatim>\<open>str(path)\<close>.\<close>

fun join_parts :: "string list \<Rightarrow> string" where
  "join_parts [] = []"
| "join_parts [x] = x"
| "join_parts (x # xs) = x @ ''/'' @ join_parts xs"

definition path_str :: "path \<Rightarrow> string" where
  "path_str p =
     (case p of
        [] \<Rightarrow> ''.''
      | x # xs \<Rightarrow> if x = ''/'' then ''/'' @ join_parts xs else join_parts p)"

text \<open>
  What the script reads from its environment: whether a path exists, the paths below a
  directory as \<^verbatim>\<open>glob("**/*")\<close> enumerates them (in the order of the operating system),
  whether a path is a regular file, the YAML document of a file, and the text the
  template engine renders for a template (named by its path relative to the template
  root) under a context.
\<close>

record env =
  path_exists :: "path \<Rightarrow> bool"
  glob_all :: "path \<Rightarrow> path list"
  is_file :: "path \<Rightarrow> bool"
  safe_load_file :: "path \<Rightarrow> py_exn + pyval"
  render_template :: "path \<Rightarrow> path \<Rightarrow> pydict \<Rightarrow> py_exn + string"

text \<open>
  \<^verbatim>\<open>
  def discover_templates(templates_dir):
      return sorted(p for p in templates_dir.glob("**/*") if p.is_file() and p.suffix == ".j2")
  \<close>
  Paths compare as the lists of their parts, strings by code points.
\<close>

definition discover_templates :: "env \<Rightarrow> path \<Rightarrow> path list" where
  "discover_templates e templates_dir =
     sort (filter (\<lambda>p. is_file e p \<and> path_suffix p = ''.j2'') (glob_all e templates_dir))"

text \<open>
  \<^verbatim>\<open>
  def target_path_for(template_rel_path, out_dir):
      stripped = template_rel_path.with_suffix("")
      return out_dir / stripped
  \<close>
  The relative path of a template is never anchored, so \<^verbatim>\<open>/\<close> appends its parts.
\<close>

definition target_path_for :: "path \<Rightarrow> path \<Rightarrow> py_exn + path" where
  "target_path_for template_rel_path out_dir =
     (case with_suffix template_rel_path [] of
        Inl e \<Rightarrow> Inl e
      | Inr stripped \<Rightarrow> Inr (out_dir @ stripped))"

text \<open>The output path the specification describes: the output root joined with the
  template's path relative to the template root, the marker suffix \<^verbatim>\<open>.j2\<close> (three
  characters) removed from its name.\<close>

definition expected_output :: "path \<Rightarrow> path \<Rightarrow> path \<Rightarrow> path" where
  "expected_output templates_dir out_dir tpl =
     (let rel = drop (length templates_dir) tpl
      in out_dir @ butlast rel @ [take (length (last rel) - 3) (last rel)])"

section \<open>Renderer and driver\<close>

text \<open>
  What the script changes: the contents of files, the directories it made, and the lines
  printed to the two streams. The file system is taken to accept every write.
\<close>

record world =
  files :: "path \<rightharpoonup> string"
  dirs :: "path set"
  stdout :: "string list"
  stderr :: "string list"

text \<open>\<^verbatim>\<open>path.mkdir(parents=True, exist_ok=True)\<close>: the directory and all its ancestors.\<close>

definition ensure_dir :: "path \<Rightarrow> world \<Rightarrow> world" where
  "ensure_dir p w = w\<lparr>dirs := dirs w \<union> set (prefixes p)\<rparr>"

definition write_text :: "path \<Rightarrow> string \<Rightarrow> world \<Rightarrow> world" where
  "write_text p content w = w\<lparr>files := (files w)(p \<mapsto> content)\<rparr>"

definition print_line :: "string \<Rightarrow> world \<Rightarrow> world" where
  "print_line s w = w\<lparr>stdout := stdout w @ [s]\<rparr>"

definition print_error :: "string \<Rightarrow> world \<Rightarrow> world" where
  "print_error s w = w\<lparr>stderr := stderr w @ [s]\<rparr>"

definition newline :: char where
  "newline = CHR 0x0A"

text \<open>
  \<^verbatim>\<open>
  def render_all(product_dict, templates_dir, out_dir):
      env = build_env(templates_dir)
      ensure_dir(out_dir)
      context = {**product_dict}
      for tpl_path in discover_templates(templates_dir):
          rel_path = tpl_path.relative_to(templates_dir)
          template = env.get_template(str(rel_path))
          output = template.render(**context)
          out_path = target_path_for(rel_path, out_dir)
          ensure_dir(out_path.parent)
          out_file = out_path
          out_file.write_text(output.strip() + "\n", encoding="utf-8")
          print(f"Wrote {out_file}")
  \<close>
  An exception ends the loop and leaves the world as the steps before it made it.
  \<^verbatim>\<open>{**product_dict}\<close> raises \<^verbatim>\<open>TypeError\<close> when the loaded document is not a mapping.
\<close>

fun render_loop ::
  "env \<Rightarrow> pydict \<Rightarrow> path \<Rightarrow> path \<Rightarrow> path list \<Rightarrow> world \<Rightarrow> (py_exn + unit) \<times> world" where
  "render_loop e context templates_dir out_dir [] w = (Inr (), w)"
| "render_loop e context templates_dir out_dir (tpl_path # rest) w =
     (case relative_to tpl_path templates_dir of
        Inl x \<Rightarrow> (Inl x, w)
      | Inr rel_path \<Rightarrow>
          (case render_template e templates_dir rel_path context of
             Inl x \<Rightarrow> (Inl x, w)
           | Inr output \<Rightarrow>
               (case target_path_for rel_path out_dir of
                  Inl x \<Rightarrow> (Inl x, w)
                | Inr out_path \<Rightarrow>
                    render_loop e context templates_dir out_dir rest
                      (print_line (''Wrote '' @ path_str out_path)
                        (write_text out_path (strip output @ [newline])
                          (ensure_dir (parent out_path) w))))))"

definition render_all :: "env \<Rightarrow> pyval \<Rightarrow> path \<Rightarrow> path \<Rightarrow> world \<Rightarrow> (py_exn + unit) \<times> world" where
  "render_all e product_dict templates_dir out_dir w =
     (let w1 = ensure_dir out_dir w
      in case product_dict of
           PDict context \<Rightarrow>
             render_loop e context templates_dir out_dir (discover_templates e templates_dir) w1
         | _ \<Rightarrow> (Inl TypeError, w1))"

text \<open>The parsed command line (\<^verbatim>\<open>parse_args\<close> is the work of \<^verbatim>\<open>argparse\<close>).\<close>

record args =
  args_product :: path
  args_templates :: path
  args_out :: path
  args_overrides :: "string list"

text \<open>\<open>apply_overrides\<close> on whatever \<open>load_yaml\<close> returned: on a value that is not a mapping
  the first entry with \<^verbatim>\<open>=\<close> raises \<^verbatim>\<open>TypeError\<close> (no such value supports both the
  membership test and the store by a string key).\<close>

definition apply_overrides_to :: "pyval \<Rightarrow> string list \<Rightarrow> py_exn + pyval" where
  "apply_overrides_to data items =
     (case data of
        PDict d \<Rightarrow> Inr (PDict (apply_overrides d items))
      | _ \<Rightarrow> if list_ex (\<lambda>item. CHR ''='' \<in> set item) items then Inl TypeError else Inr data)"

text \<open>
  \<^verbatim>\<open>
  def main(argv):
      args = parse_args(argv)
      ...
      if not product_path.exists():
          print(f"ERROR: product file not found: {product_path}", file=sys.stderr)
          return 2
      if not templates_dir.exists():
          print(f"ERROR: templates dir not found: {templates_dir}", file=sys.stderr)
          return 2
      data = load_yaml(product_path)
      apply_overrides(data, args.overrides)
      render_all(data, templates_dir, out_dir)
      return 0
  \<close>
\<close>

definition main :: "env \<Rightarrow> args \<Rightarrow> world \<Rightarrow> (py_exn + int) \<times> world" where
  "main e a w =
     (if \<not> path_exists e (args_product a)
      then (Inr 2, print_error (''ERROR: product file not found: '' @ path_str (args_product a)) w)
      else if \<not> path_exists e (args_templates a)
      then (Inr 2, print_error (''ERROR: templates dir not found: '' @ path_str (args_templates a)) w)
      else (case load_yaml (safe_load_file e) (args_product a) of
              Inl x \<Rightarrow> (Inl x, w)
            | Inr data \<Rightarrow>
                (case apply_overrides_to data (args_overrides a) of
                   Inl x \<Rightarrow> (Inl x, w)
                 | Inr data' \<Rightarrow>
                     (case render_all e data' (args_templates a) (args_out a) w of
                        (Inl x, w') \<Rightarrow> (Inl x, w')
                      | (Inr u, w') \<Rightarrow> (Inr 0, w')))))"

section \<open>An example environment\<close>

text \<open>A template root holding \<^verbatim>\<open>c.txt.j2\<close>, the directory \<^verbatim>\<open>a\<close>, \<^verbatim>\<open>a/b.html.j2\<close> and
  \<^verbatim>\<open>notes.txt\<close>, enumerated in that order; every template renders to its own name between
  blanks and blank lines.\<close>

definition example_env :: env where
  "example_env =
     \<lparr>path_exists = (\<lambda>p. True),
      glob_all = (\<lambda>root. [root @ [''c.txt.j2''], root @ [''a''], root @ [''a'', ''b.html.j2''],
                           root @ [''notes.txt'']]),
      is_file = (\<lambda>p. last p \<noteq> ''a''),
      safe_load_file = (\<lambda>p. Inr (PDict [(''name'', PStr ''Widget'')])),
      render_template = (\<lambda>root rel context. Inr ('' '' @ join_parts rel @ [newline, newline]))\<rparr>"

definition empty_world :: world where
  "empty_world = \<lparr>files = Map.empty, dirs = {}, stdout = [], stderr = []\<rparr>"

definition example_args :: args where
  "example_args =
     \<lparr>args_product = [''marketing'', ''product.yaml''], args_templates = [''t''],
      args_out = [''out''], args_overrides = [''name=Gadget'', ''junk'']\<rparr>"

section \<open>Properties of the override applier\<close>

lemma split_on_nonempty: "split_on sep s \<noteq> []"
  by (induction s) (auto split: list.splits)

lemma walk_plug_nested:
  "(case walk outer current keys of
      (outer', current') \<Rightarrow> plug outer' (AList.update k v current'))
   = plug outer (nested_set (keys @ [k]) v current)"
proof (induction keys arbitrary: outer current)
  case Nil
  show ?case by simp
next
  case (Cons key keys)
  obtain kk ks where ks: "keys @ [k] = kk # ks"
    by (cases "keys @ [k]") auto
  show ?case
  proof (cases "\<exists>sub. map_of current key = Some (PDict sub)")
    case True
    then obtain sub where sub: "map_of current key = Some (PDict sub)" by blast
    have "(case walk outer current (key # keys) of
             (outer', current') \<Rightarrow> plug outer' (AList.update k v current'))
        = plug ((current, key) # outer) (nested_set (keys @ [k]) v sub)"
      using Cons.IH [of "(current, key) # outer" sub] by (simp add: sub)
    also have "\<dots> = plug outer (nested_set ((key # keys) @ [k]) v current)"
      by (simp add: ks sub)
    finally show ?thesis .
  next
    case False
    then have w: "walk outer current (key # keys)
        = walk ((AList.update key (PDict []) current, key) # outer) [] keys"
      by (auto split: option.splits pyval.splits)
    have n: "(case map_of current key of Some (PDict sub) \<Rightarrow> sub | _ \<Rightarrow> []) = []"
      using False by (auto split: option.splits pyval.splits)
    have "(case walk outer current (key # keys) of
             (outer', current') \<Rightarrow> plug outer' (AList.update k v current'))
        = plug ((AList.update key (PDict []) current, key) # outer) (nested_set (keys @ [k]) v [])"
      unfolding w by (rule Cons.IH)
    also have "\<dots> = plug outer (nested_set ((key # keys) @ [k]) v current)"
      by (simp add: ks n update_last)
    finally show ?thesis .
  qed
qed

lemma set_deep_value_nested:
  "set_deep_value d dotted v = nested_set (split_on CHR ''.'' dotted) (PStr v) d"
proof -
  have "split_on CHR ''.'' dotted \<noteq> []" by (rule split_on_nonempty)
  then have e: "butlast (split_on CHR ''.'' dotted) @ [last (split_on CHR ''.'' dotted)]
      = split_on CHR ''.'' dotted" by simp
  show ?thesis
    unfolding set_deep_value_def Let_def
    using walk_plug_nested [where outer = "[]" and current = d
        and keys = "butlast (split_on CHR ''.'' dotted)"
        and k = "last (split_on CHR ''.'' dotted)" and v = "PStr v"]
    by (simp only: e plug.simps)
qed

lemma apply_overrides_foldl: "apply_overrides d ovs = foldl override_step d ovs"
  by (induction ovs arbitrary: d)
     (simp_all add: override_step_def override_path_def override_value_def
        set_deep_value_nested split: prod.splits)

lemma lookup_nested_set_self:
  "p \<noteq> [] \<Longrightarrow> lookup_path (PDict (nested_set p v d)) p = Some v"
  by (induction p v d rule: nested_set.induct) (simp_all add: update_conv')

lemma lookup_nested_set_prefix:
  "strict_prefix q p \<Longrightarrow>
   lookup_path (PDict (nested_set p v d)) q =
     Some (PDict (nested_set (drop (length q) p) v
       (case lookup_path (PDict d) q of Some (PDict m) \<Rightarrow> m | _ \<Rightarrow> [])))"
proof (induction p v d arbitrary: q rule: nested_set.induct)
  case (1 v d)
  then show ?case by simp
next
  case (2 k v d)
  then have "q = []" by (cases q) auto
  then show ?case by simp
next
  case (3 k k' ks v d)
  show ?case
  proof (cases q)
    case Nil
    then show ?thesis by simp
  next
    case (Cons a q')
    with "3.prems" have a: "a = k" and q': "strict_prefix q' (k' # ks)" by auto
    define sub where "sub = (case map_of d k of Some (PDict s) \<Rightarrow> s | _ \<Rightarrow> [])"
    have "(case lookup_path (PDict sub) q' of Some (PDict m) \<Rightarrow> m | _ \<Rightarrow> [])
        = (case lookup_path (PDict d) (k # q') of Some (PDict m) \<Rightarrow> m | _ \<Rightarrow> [])"
      by (cases q') (auto simp: sub_def split: option.splits pyval.splits)
    with "3.IH" [OF q'] show ?thesis
      by (simp add: Cons a update_conv' sub_def)
  qed
qed



lemma override_path_nonempty: "override_path item \<noteq> []"
  by (simp add: override_path_def split_on_nonempty)

text \<open>
  \<^bold>\<open>Claim C2.\<close> \<open>apply_overrides\<close> applies the entries that contain \<^verbatim>\<open>=\<close> in order, each
  as the nested store of the specification (\<open>override_step\<close>, \<open>nested_set\<close>): the key path
  is split on \<^verbatim>\<open>.\<close>; after an entry its path leads to the right-hand side as a string
  (so the last of several entries for one path wins); every proper prefix of the path
  leads to a mapping, which is the old mapping with the rest of the store applied when
  there was a mapping, and a fresh mapping holding only the rest of the store when the
  key was missing or bound to something else. \<^verbatim>\<open>a.b.c=x\<close> on the empty configuration
  gives \<^verbatim>\<open>{a: {b: {c: "x"}}}\<close>, and \<^verbatim>\<open>a=1\<close> then \<^verbatim>\<open>a.b=2\<close> leaves \<^verbatim>\<open>{b: "2"}\<close> at \<^verbatim>\<open>a\<close>.
\<close>

theorem apply_overrides_sets_nested_values:
  "apply_overrides d ovs = foldl override_step d ovs
   \<and> (CHR ''='' \<in> set item \<longrightarrow>
        lookup_path (PDict (apply_overrides d (ovs @ [item]))) (override_path item)
          = Some (PStr (override_value item))
        \<and> (\<forall>q. strict_prefix q (override_path item) \<longrightarrow>
              lookup_path (PDict (override_step d item)) q =
                Some (PDict (nested_set (drop (length q) (override_path item))
                  (PStr (override_value item))
                  (case lookup_path (PDict d) q of Some (PDict m) \<Rightarrow> m | _ \<Rightarrow> [])))))
   \<and> apply_overrides [] [''a.b.c=x'']
        = [(''a'', PDict [(''b'', PDict [(''c'', PStr ''x'')])])]
   \<and> lookup_path (PDict (apply_overrides d [''a=1'', ''a.b=2''])) [''a'']
        = Some (PDict [(''b'', PStr ''2'')])"
proof (intro conjI impI allI)
  show "apply_overrides d ovs = foldl override_step d ovs"
    by (rule apply_overrides_foldl)
next
  assume "CHR ''='' \<in> set item"
  then show "lookup_path (PDict (apply_overrides d (ovs @ [item]))) (override_path item)
      = Some (PStr (override_value item))"
    by (simp add: apply_overrides_foldl override_step_def lookup_nested_set_self
        override_path_nonempty)
next
  fix q
  assume "CHR ''='' \<in> set item" and "strict_prefix q (override_path item)"
  then show "lookup_path (PDict (override_step d item)) q =
      Some (PDict (nested_set (drop (length q) (override_path item))
        (PStr (override_value item))
        (case lookup_path (PDict d) q of Some (PDict m) \<Rightarrow> m | _ \<Rightarrow> [])))"
    by (simp add: override_step_def lookup_nested_set_prefix)
next
  show "apply_overrides [] [''a.b.c=x'']
      = [(''a'', PDict [(''b'', PDict [(''c'', PStr ''x'')])])]"
    by code_simp
next
  have p1: "override_path ''a=1'' = [''a'']" by code_simp
  have p2: "override_path ''a.b=2'' = [''a'', ''b'']" by code_simp
  have v2: "override_value ''a.b=2'' = ''2''" by code_simp
  show "lookup_path (PDict (apply_overrides d [''a=1'', ''a.b=2''])) [''a'']
      = Some (PDict [(''b'', PStr ''2'')])"
    by (simp add: apply_overrides_foldl override_step_def p1 p2 v2 update_conv')
qed

theorem apply_overrides_sets_nested_values_witness:
  "CHR ''='' \<in> set ''a.b=2''
   \<and> lookup_path (PDict (apply_overrides [(''a'', PInt 1)] [''a.b=1'', ''a.b=2''])) [''a'', ''b'']
       = Some (PStr ''2'')
   \<and> lookup_path (PDict (override_step [(''a'', PInt 1)] ''a.b=2'')) [''a'']
       = Some (PDict [(''b'', PStr ''2'')])"
proof -
  have e: "CHR ''='' \<in> set ''a.b=2''" by simp
  have p: "override_path ''a.b=2'' = [''a'', ''b'']" by code_simp
  have v: "override_value ''a.b=2'' = ''2''" by code_simp
  have s: "strict_prefix [''a''] (override_path ''a.b=2'')" by (simp add: p)
  have l: "[''a.b=1''] @ [''a.b=2''] = [''a.b=1'', ''a.b=2'']" by simp
  note t = apply_overrides_sets_nested_values
    [of "[(''a'', PInt 1)]" "[''a.b=1'']" "''a.b=2''"]
  from t e have A: "lookup_path (PDict (apply_overrides [(''a'', PInt 1)] ([''a.b=1''] @ [''a.b=2''])))
          (override_path ''a.b=2'') = Some (PStr (override_value ''a.b=2''))"
    by blast
  from t e have "\<forall>q. strict_prefix q (override_path ''a.b=2'') \<longrightarrow>
              lookup_path (PDict (override_step [(''a'', PInt 1)] ''a.b=2'')) q =
                Some (PDict (nested_set (drop (length q) (override_path ''a.b=2''))
                  (PStr (override_value ''a.b=2''))
                  (case lookup_path (PDict [(''a'', PInt 1)]) q of Some (PDict m) \<Rightarrow> m | _ \<Rightarrow> [])))"
    by blast
  from this [rule_format, OF s]
  have B: "lookup_path (PDict (override_step [(''a'', PInt 1)] ''a.b=2'')) [''a'']
      = Some (PDict [(''b'', PStr ''2'')])"
    unfolding p v by simp
  from A have A': "lookup_path (PDict (apply_overrides [(''a'', PInt 1)] [''a.b=1'', ''a.b=2'']))
      [''a'', ''b''] = Some (PStr ''2'')"
    unfolding p v l .
  from e A' B show ?thesis by blast
qed

text \<open>
  \<^bold>\<open>Claim C8.\<close> An override entry without \<^verbatim>\<open>=\<close> is skipped: applied alone it leaves the
  configuration as it was, and anywhere in a list of entries the result is that of the
  list without it. The model is total, so no error arises.
\<close>

theorem apply_overrides_skips_entry_without_separator:
  "CHR ''='' \<notin> set item \<Longrightarrow>
   apply_overrides d [item] = d
   \<and> apply_overrides d (before @ item # after) = apply_overrides d (before @ after)"
  by (simp add: apply_overrides_foldl override_step_def)

theorem apply_overrides_skips_entry_without_separator_witness:
  "CHR ''='' \<notin> set ''junk''
   \<and> apply_overrides [(''a'', PInt 1)] [''junk''] = [(''a'', PInt 1)]
   \<and> apply_overrides [(''a'', PInt 1)] ([''a.b=1''] @ ''junk'' # [''c=2''])
       = apply_overrides [(''a'', PInt 1)] ([''a.b=1''] @ [''c=2''])"
proof -
  have h: "CHR ''='' \<notin> set ''junk''" by simp
  from apply_overrides_skips_entry_without_separator [OF h] h show ?thesis by blast
qed




section \<open>Properties of the template function \<^verbatim>\<open>year\<close> and of the loader\<close>

lemma decimal_value_snoc:
  "decimal_value (s @ [c]) = 10 * decimal_value s + (of_char c - 48)"
  by (simp add: decimal_value_def)

lemma of_char_digit_char: "n < 10 \<Longrightarrow> of_char (digit_char n) = 48 + n"
  by (simp add: digit_char_def)

lemma decimal_value_str_nat: "decimal_value (str_nat n) = n"
proof (induction n rule: str_nat.induct)
  case (1 n)
  show ?case
  proof (cases "n < 10")
    case True
    then show ?thesis
      by (subst str_nat.simps) (simp add: decimal_value_def of_char_digit_char)
  next
    case False
    with 1 have "decimal_value (str_nat (n div 10)) = n div 10" by simp
    with False show ?thesis
      by (subst str_nat.simps) (simp add: decimal_value_snoc of_char_digit_char)
  qed
qed

lemma digit_char_is_decimal: "n < 10 \<Longrightarrow> is_decimal (digit_char n)"
  by (simp add: is_decimal_def of_char_digit_char)

lemma str_nat_decimal_digits: "list_all is_decimal (str_nat n)"
proof (induction n rule: str_nat.induct)
  case (1 n)
  show ?case
  proof (cases "n < 10")
    case True
    with digit_char_is_decimal [of n] show ?thesis
      by (subst str_nat.simps) simp
  next
    case False
    with 1 have "list_all is_decimal (str_nat (n div 10))" by simp
    moreover have "is_decimal (digit_char (n mod 10))"
      by (rule digit_char_is_decimal) simp
    ultimately show ?thesis using False
      by (subst str_nat.simps) simp
  qed
qed

lemma length_str_nat_four: "1000 \<le> n \<Longrightarrow> n \<le> 9999 \<Longrightarrow> length (str_nat n) = 4"
proof -
  assume a: "1000 \<le> n" "n \<le> 9999"
  have 1: "str_nat n = str_nat (n div 10) @ [digit_char (n mod 10)]"
    using a by (subst str_nat.simps) simp
  have 2: "str_nat (n div 10) = str_nat (n div 10 div 10) @ [digit_char (n div 10 mod 10)]"
    using a by (subst str_nat.simps) simp
  have 3: "str_nat (n div 10 div 10)
      = str_nat (n div 10 div 10 div 10) @ [digit_char (n div 10 div 10 mod 10)]"
    using a by (subst str_nat.simps) simp
  have 4: "str_nat (n div 10 div 10 div 10) = [digit_char (n div 10 div 10 div 10)]"
    using a by (subst str_nat.simps) simp
  show ?thesis by (simp add: 1 2 3 4)
qed

lemma to_year_total: "\<exists>s. to_year v = Inr s"
  by (cases v) (simp_all add: to_year_def)

text \<open>
  \<^bold>\<open>Claim C4\<close>, amended: \<open>to_year\<close> never raises. For a date or a datetime it returns the
  year in decimal without padding: the digits \<^verbatim>\<open>0\<close> to \<^verbatim>\<open>9\<close> that denote the year, four of
  them exactly for the years 1000 to 9999. For a string of at least four characters whose
  first four are digits it returns those four characters; for every other string and
  every other value it returns the empty string. \<^verbatim>\<open>year("2024-05-01")\<close> is \<^verbatim>\<open>"2024"\<close> and
  \<^verbatim>\<open>year(42)\<close> is \<^verbatim>\<open>""\<close>.
\<close>

theorem to_year_cases:
  "(\<exists>s. to_year v = Inr s)
   \<and> to_year (PDate d) = Inr (str_int (year d))
   \<and> to_year (PDateTime d t) = Inr (str_int (year d))
   \<and> (1 \<le> year d \<longrightarrow>
        str_int (year d) = str_nat (nat (year d))
        \<and> list_all is_decimal (str_int (year d))
        \<and> int (decimal_value (str_int (year d))) = year d)
   \<and> (1000 \<le> year d \<and> year d \<le> 9999 \<longrightarrow> length (str_int (year d)) = 4)
   \<and> to_year (PStr s) =
        Inr (if 4 \<le> length s \<and> list_all is_digit (take 4 s) then take 4 s else [])
   \<and> to_year PNone = Inr [] \<and> to_year (PBool b) = Inr [] \<and> to_year (PInt i) = Inr []
   \<and> to_year (PList xs) = Inr [] \<and> to_year (PDict m) = Inr []
   \<and> to_year (PStr ''2024-05-01'') = Inr ''2024''
   \<and> to_year (PInt 42) = Inr []"
proof (intro conjI)
  show "\<exists>s. to_year v = Inr s" by (rule to_year_total)
  show "to_year (PDate d) = Inr (str_int (year d))" by (simp add: to_year_def)
  show "to_year (PDateTime d t) = Inr (str_int (year d))" by (simp add: to_year_def)
  show "1 \<le> year d \<longrightarrow>
        str_int (year d) = str_nat (nat (year d))
        \<and> list_all is_decimal (str_int (year d))
        \<and> int (decimal_value (str_int (year d))) = year d"
    using str_nat_decimal_digits [of "nat (year d)"]
    by (simp add: str_int_def decimal_value_str_nat)
  show "1000 \<le> year d \<and> year d \<le> 9999 \<longrightarrow> length (str_int (year d)) = 4"
    using length_str_nat_four [of "nat (year d)"] by (auto simp: str_int_def)
  show "to_year (PStr s) =
        Inr (if 4 \<le> length s \<and> list_all is_digit (take 4 s) then take 4 s else [])"
    by (simp add: to_year_def)
  show "to_year PNone = Inr []" by (simp add: to_year_def)
  show "to_year (PBool b) = Inr []" by (simp add: to_year_def)
  show "to_year (PInt i) = Inr []" by (simp add: to_year_def)
  show "to_year (PList xs) = Inr []" by (simp add: to_year_def)
  show "to_year (PDict m) = Inr []" by (simp add: to_year_def)
  show "to_year (PStr ''2024-05-01'') = Inr ''2024''" by code_simp
  show "to_year (PInt 42) = Inr []" by (simp add: to_year_def)
qed

theorem to_year_cases_witness:
  "(1::int) \<le> 2024 \<and> (1000::int) \<le> 2024 \<and> (2024::int) \<le> 9999
   \<and> to_year (PDate \<lparr>year = 2024, month = 5, day = 1\<rparr>) = Inr ''2024''
   \<and> length (str_int 2024) = 4
   \<and> decimal_value (str_int 2024) = 2024"
proof -
  have s: "str_int 2024 = ''2024''" by code_simp
  have y: "year \<lparr>year = 2024, month = 5, day = 1\<rparr> = 2024" by simp
  note t = to_year_cases [where d = "\<lparr>year = 2024, month = 5, day = 1\<rparr>" and v = PNone]
  from t have 1: "to_year (PDate \<lparr>year = 2024, month = 5, day = 1\<rparr>)
      = Inr (str_int (year \<lparr>year = 2024, month = 5, day = 1\<rparr>))"
    by blast
  from t have 2: "1000 \<le> year \<lparr>year = 2024, month = 5, day = 1\<rparr>
      \<and> year \<lparr>year = 2024, month = 5, day = 1\<rparr> \<le> 9999
      \<longrightarrow> length (str_int (year \<lparr>year = 2024, month = 5, day = 1\<rparr>)) = 4"
    by blast
  from t have 3: "1 \<le> year \<lparr>year = 2024, month = 5, day = 1\<rparr> \<longrightarrow>
      int (decimal_value (str_int (year \<lparr>year = 2024, month = 5, day = 1\<rparr>)))
        = year \<lparr>year = 2024, month = 5, day = 1\<rparr>"
    by blast
  from 1 have r1: "to_year (PDate \<lparr>year = 2024, month = 5, day = 1\<rparr>) = Inr ''2024''"
    unfolding y s .
  from 2 have r2: "length (str_int 2024) = 4" unfolding y by simp
  from 3 have r3: "decimal_value (str_int 2024) = 2024" unfolding y by simp
  from r1 r2 r3 show ?thesis by simp
qed

text \<open>
  \<^bold>\<open>Claim C4\<close>, as stated, fails for a date before the year 1000: the year of
  \<^verbatim>\<open>date(987, 1, 1)\<close> comes out as the three characters \<^verbatim>\<open>987\<close>.
\<close>

theorem to_year_of_early_date_has_three_digits:
  "to_year (PDate \<lparr>year = 987, month = 1, day = 1\<rparr>) = Inr ''987''
   \<and> length ''987'' = (3::nat)"
proof -
  have "str_int 987 = ''987''" by code_simp
  then show ?thesis by (simp add: to_year_def)
qed

text \<open>
  \<^bold>\<open>Claim C7\<close> against the code: for a document whose top level is a non-empty sequence,
  as \<^verbatim>\<open>- a\<close>, \<^verbatim>\<open>- b\<close>, the loader returns the sequence, which is not a mapping, although
  \<open>load_yaml\<close> is declared to return \<^verbatim>\<open>Dict[str, Any]\<close>.
\<close>

theorem load_yaml_returns_sequence_document:
  "load_yaml (\<lambda>p. Inr (PList [PStr ''a'', PStr ''b''])) [''marketing'', ''product.yaml'']
     = Inr (PList [PStr ''a'', PStr ''b''])
   \<and> \<not> is_dict (PList [PStr ''a'', PStr ''b''])"
  by (simp add: load_yaml_def)

lemma load_yaml_result:
  "load_yaml f p = (case f p of Inl e \<Rightarrow> Inl e
     | Inr doc \<Rightarrow> Inr (if truthy doc then doc else PDict []))"
  by (simp add: load_yaml_def)

lemma load_yaml_empty_document: "f p = Inr PNone \<Longrightarrow> load_yaml f p = Inr (PDict [])"
  by (simp add: load_yaml_def)

lemma load_yaml_mapping_iff:
  "f p = Inr doc \<Longrightarrow>
   (\<exists>m. load_yaml f p = Inr (PDict m)) \<longleftrightarrow> (is_dict doc \<or> \<not> truthy doc)"
  by (cases doc) (auto simp: load_yaml_def)

section \<open>Properties of the template function \<^verbatim>\<open>with_utm\<close>\<close>



lemma distinct_first_occurrences: "distinct (first_occurrences xs)"
  by (simp add: first_occurrences_def)










section \<open>Properties of template discovery\<close>

lemma rfind_stem_j2: "rfind CHR ''.'' (stem @ ''.j2'') = Some (length stem)"
  by (simp add: rfind_def)

lemma name_suffix_stem_j2: "stem \<noteq> [] \<Longrightarrow> name_suffix (stem @ ''.j2'') = ''.j2''"
  by (simp add: name_suffix_def rfind_stem_j2)

lemma name_suffix_split:
  "name_suffix name \<noteq> [] \<Longrightarrow>
   \<exists>stem. stem \<noteq> [] \<and> name = stem @ name_suffix name"
proof -
  assume a: "name_suffix name \<noteq> []"
  then obtain i where i: "rfind CHR ''.'' name = Some i" "0 < i" "i < length name - 1"
      "name_suffix name = drop i name"
    by (auto simp: name_suffix_def split: option.splits if_splits)
  then have "take i name \<noteq> []" "name = take i name @ name_suffix name" by auto
  then show ?thesis by blast
qed

lemma name_suffix_j2_iff:
  "name_suffix name = ''.j2'' \<longleftrightarrow> (\<exists>stem. stem \<noteq> [] \<and> name = stem @ ''.j2'')"
proof
  assume a: "name_suffix name = ''.j2''"
  then have "name_suffix name \<noteq> []" by simp
  from name_suffix_split [OF this] a show "\<exists>stem. stem \<noteq> [] \<and> name = stem @ ''.j2''"
    by simp
next
  assume "\<exists>stem. stem \<noteq> [] \<and> name = stem @ ''.j2''"
  then show "name_suffix name = ''.j2''" by (auto simp: name_suffix_stem_j2)
qed

lemma discover_templates_set:
  "set (discover_templates e root) =
     {p \<in> set (glob_all e root). is_file e p \<and> path_suffix p = ''.j2''}"
  by (auto simp: discover_templates_def)

lemma discover_templates_permutation:
  "mset (glob_all e' root) = mset (glob_all e root) \<Longrightarrow> is_file e' = is_file e \<Longrightarrow>
   discover_templates e' root = discover_templates e root"
proof -
  assume a: "mset (glob_all e' root) = mset (glob_all e root)" and b: "is_file e' = is_file e"
  have "mset (filter (\<lambda>p. is_file e' p \<and> path_suffix p = ''.j2'') (glob_all e' root))
      = mset (filter (\<lambda>p. is_file e p \<and> path_suffix p = ''.j2'') (glob_all e root))"
    by (simp add: a b)
  then show ?thesis
    unfolding discover_templates_def
    by (intro properties_for_sort) simp_all
qed

text \<open>
  \<^bold>\<open>Claim C5\<close>, amended: \<open>discover_templates\<close> returns exactly the enumerated regular files
  whose name is a non-empty stem followed by \<^verbatim>\<open>.j2\<close> (each as often as it is enumerated),
  in sorted order, and the result does not depend on the order of enumeration.
\<close>

theorem discover_templates_sorted_template_files:
  "set (discover_templates e root) =
     {p \<in> set (glob_all e root). is_file e p \<and>
        (\<exists>stem. stem \<noteq> [] \<and> path_name p = stem @ ''.j2'')}
   \<and> mset (discover_templates e root) =
       filter_mset (\<lambda>p. is_file e p \<and> path_suffix p = ''.j2'') (mset (glob_all e root))
   \<and> sorted (discover_templates e root)
   \<and> (mset (glob_all e' root) = mset (glob_all e root) \<and> is_file e' = is_file e \<longrightarrow>
        discover_templates e' root = discover_templates e root)"
proof (intro conjI impI)
  show "set (discover_templates e root) =
     {p \<in> set (glob_all e root). is_file e p \<and>
        (\<exists>stem. stem \<noteq> [] \<and> path_name p = stem @ ''.j2'')}"
    by (simp add: discover_templates_set path_suffix_def name_suffix_j2_iff)
  show "mset (discover_templates e root) =
       filter_mset (\<lambda>p. is_file e p \<and> path_suffix p = ''.j2'') (mset (glob_all e root))"
    by (simp add: discover_templates_def)
  show "sorted (discover_templates e root)"
    by (simp add: discover_templates_def)
  assume "mset (glob_all e' root) = mset (glob_all e root) \<and> is_file e' = is_file e"
  then show "discover_templates e' root = discover_templates e root"
    using discover_templates_permutation by blast
qed

theorem discover_templates_sorted_template_files_witness:
  "mset (glob_all (example_env\<lparr>glob_all := (\<lambda>root. rev (glob_all example_env root))\<rparr>) [''t''])
     = mset (glob_all example_env [''t''])
   \<and> discover_templates (example_env\<lparr>glob_all := (\<lambda>root. rev (glob_all example_env root))\<rparr>) [''t'']
     = discover_templates example_env [''t'']
   \<and> discover_templates example_env [''t''] = [[''t'', ''a'', ''b.html.j2''], [''t'', ''c.txt.j2'']]"
proof -
  let ?e' = "example_env\<lparr>glob_all := (\<lambda>root. rev (glob_all example_env root))\<rparr>"
  have m: "mset (glob_all ?e' [''t'']) = mset (glob_all example_env [''t''])" by simp
  have f: "is_file ?e' = is_file example_env" by simp
  have d: "discover_templates example_env [''t'']
      = [[''t'', ''a'', ''b.html.j2''], [''t'', ''c.txt.j2'']]" by code_simp
  from discover_templates_sorted_template_files [of example_env "[''t'']" ?e'] m f
  have "discover_templates ?e' [''t''] = discover_templates example_env [''t'']" by blast
  with m d show ?thesis by blast
qed

text \<open>
  \<^bold>\<open>Claim C5\<close>, as stated, fails for a regular file named \<^verbatim>\<open>.j2\<close>: its name ends with
  \<^verbatim>\<open>.j2\<close>, but the path library gives it no suffix and it is not returned.
\<close>

theorem discover_templates_skips_file_named_j2:
  "discover_templates
     (example_env\<lparr>glob_all := (\<lambda>root. [root @ [''.j2'']]), is_file := (\<lambda>p. True)\<rparr>) [''t'']
     = []
   \<and> suffix ''.j2'' (path_name [''t'', ''.j2''])"
proof -
  have "discover_templates
     (example_env\<lparr>glob_all := (\<lambda>root. [root @ [''.j2'']]), is_file := (\<lambda>p. True)\<rparr>) [''t'']
     = []" by code_simp
  moreover have "suffix ''.j2'' (path_name [''t'', ''.j2''])"
    by (simp add: path_name_def)
  ultimately show ?thesis by blast
qed

section \<open>Properties of the renderer\<close>



lemma path_name_last: "path_name p \<noteq> [] \<Longrightarrow> p \<noteq> [] \<and> path_name p = last p"
  by (auto simp: path_name_def split: if_splits)

lemma path_suffix_nonempty_name: "path_suffix p \<noteq> [] \<Longrightarrow> path_name p \<noteq> []"
  by (auto simp: path_suffix_def name_suffix_def rfind_def)

lemma rel_name:
  assumes "prefix td t" and "path_name (drop (length td) t) \<noteq> []" and "path_suffix t = ''.j2''"
  shows "drop (length td) t \<noteq> []"
    and "\<exists>stem. stem \<noteq> [] \<and> last (drop (length td) t) = stem @ ''.j2''"
    and "path_suffix (drop (length td) t) = ''.j2''"
proof -
  let ?rel = "drop (length td) t"
  from assms(2) have r: "?rel \<noteq> []" "path_name ?rel = last ?rel"
    using path_name_last by blast+
  from assms(3) have "path_name t \<noteq> []" by (simp add: path_suffix_nonempty_name)
  then have t: "t \<noteq> []" "path_name t = last t" using path_name_last by blast+
  from r(1) have l: "last ?rel = last t" by (simp add: last_drop)
  show "?rel \<noteq> []" by (rule r(1))
  from assms(3) have n: "name_suffix (last t) = ''.j2''" by (simp add: path_suffix_def t(2))
  then show "\<exists>stem. stem \<noteq> [] \<and> last ?rel = stem @ ''.j2''"
    by (simp add: l name_suffix_j2_iff)
  from n show "path_suffix ?rel = ''.j2''" by (simp add: path_suffix_def r(2) l)
qed

lemma target_path_for_expected:
  assumes "prefix td t" and "path_suffix t = ''.j2''"
    and "target_path_for (drop (length td) t) od = Inr out"
  shows "out = expected_output td od t" and "path_name (drop (length td) t) \<noteq> []"
proof -
  let ?rel = "drop (length td) t"
  from assms(3) show n: "path_name ?rel \<noteq> []"
    by (auto simp: target_path_for_def with_suffix_def split: if_splits sum.splits)
  note r = rel_name [OF assms(1) n assms(2)]
  from n have pn: "path_name ?rel = last ?rel" using path_name_last by blast
  from assms(3) n show "out = expected_output td od t"
    by (auto simp: target_path_for_def with_suffix_def r(3) pn expected_output_def Let_def
        numeral_3_eq_3 split: if_splits sum.splits)
qed

lemma expected_output_inj:
  assumes "prefix td t1" "path_name (drop (length td) t1) \<noteq> []" "path_suffix t1 = ''.j2''"
    and "prefix td t2" "path_name (drop (length td) t2) \<noteq> []" "path_suffix t2 = ''.j2''"
    and "expected_output td od t1 = expected_output td od t2"
  shows "t1 = t2"
proof -
  let ?r1 = "drop (length td) t1" and ?r2 = "drop (length td) t2"
  note a = rel_name [OF assms(1,2,3)] and b = rel_name [OF assms(4,5,6)]
  from a(2) obtain s1 where s1: "last ?r1 = s1 @ ''.j2''" by blast
  from b(2) obtain s2 where s2: "last ?r2 = s2 @ ''.j2''" by blast
  from assms(7) have "butlast ?r1 @ [s1] = butlast ?r2 @ [s2]"
    by (simp add: expected_output_def Let_def s1 s2)
  then have "butlast ?r1 = butlast ?r2" "s1 = s2" by simp_all
  with s1 s2 have "butlast ?r1 @ [last ?r1] = butlast ?r2 @ [last ?r2]" by simp
  then have "?r1 = ?r2"
    unfolding append_butlast_last_id [OF a(1)] append_butlast_last_id [OF b(1)] .
  moreover from assms(1) have "t1 = td @ ?r1" by (auto simp: prefix_def)
  moreover from assms(4) have "t2 = td @ ?r2" by (auto simp: prefix_def)
  ultimately show ?thesis by simp
qed

lemma files_step:
  "files (print_line s (write_text p c (ensure_dir d w))) = (files w)(p \<mapsto> c)"
  by (simp add: print_line_def write_text_def ensure_dir_def)

lemma render_loop_Cons_success:
  assumes "render_loop e c td od (t # rest) w = (Inr (), w')"
  obtains rt out where
    "prefix td t"
    "render_template e td (drop (length td) t) c = Inr rt"
    "target_path_for (drop (length td) t) od = Inr out"
    "render_loop e c td od rest
       (print_line (''Wrote '' @ path_str out)
         (write_text out (strip rt @ [newline]) (ensure_dir (parent out) w))) = (Inr (), w')"
  using assms by (auto simp: relative_to_def split: sum.splits if_splits)

lemma render_loop_steps_ok:
  "render_loop e c td od ts w = (Inr (), w') \<Longrightarrow> t \<in> set ts \<Longrightarrow>
   prefix td t \<and> path_name (drop (length td) t) \<noteq> []
   \<and> (\<exists>rt. render_template e td (drop (length td) t) c = Inr rt)"
proof (induction ts arbitrary: w)
  case Nil
  then show ?case by simp
next
  case (Cons t0 rest)
  from Cons.prems(1) obtain rt out where s:
    "prefix td t0"
    "render_template e td (drop (length td) t0) c = Inr rt"
    "target_path_for (drop (length td) t0) od = Inr out"
    "render_loop e c td od rest
       (print_line (''Wrote '' @ path_str out)
         (write_text out (strip rt @ [newline]) (ensure_dir (parent out) w))) = (Inr (), w')"
    by (rule render_loop_Cons_success)
  show ?case
  proof (cases "t = t0")
    case True
    from s(3) have "path_name (drop (length td) t0) \<noteq> []"
      by (auto simp: target_path_for_def with_suffix_def split: if_splits sum.splits)
    with s True show ?thesis by blast
  next
    case False
    with Cons.prems(2) have "t \<in> set rest" by simp
    from Cons.IH [OF s(4) this] show ?thesis .
  qed
qed

lemma render_loop_frame:
  "render_loop e c td od ts w = (Inr (), w') \<Longrightarrow> \<forall>t\<in>set ts. path_suffix t = ''.j2'' \<Longrightarrow>
   p \<notin> expected_output td od ` set ts \<Longrightarrow> files w' p = files w p"
proof (induction ts arbitrary: w)
  case Nil
  then show ?case by simp
next
  case (Cons t0 rest)
  from Cons.prems(1) obtain rt out where s:
    "prefix td t0"
    "render_template e td (drop (length td) t0) c = Inr rt"
    "target_path_for (drop (length td) t0) od = Inr out"
    "render_loop e c td od rest
       (print_line (''Wrote '' @ path_str out)
         (write_text out (strip rt @ [newline]) (ensure_dir (parent out) w))) = (Inr (), w')"
    by (rule render_loop_Cons_success)
  from Cons.prems(2) have j: "path_suffix t0 = ''.j2''" "\<forall>t\<in>set rest. path_suffix t = ''.j2''"
    by simp_all
  from target_path_for_expected(1) [OF s(1) j(1) s(3)] have o: "out = expected_output td od t0" .
  from Cons.prems(3) have p: "p \<noteq> out" "p \<notin> expected_output td od ` set rest"
    by (auto simp: o)
  from Cons.IH [OF s(4) j(2) p(2)] p(1) show ?case
    by (simp add: files_step)
qed

lemma render_loop_written:
  "render_loop e c td od ts w = (Inr (), w') \<Longrightarrow> \<forall>t\<in>set ts. path_suffix t = ''.j2'' \<Longrightarrow>
   t \<in> set ts \<Longrightarrow> render_template e td (drop (length td) t) c = Inr rt \<Longrightarrow>
   files w' (expected_output td od t) = Some (strip rt @ [newline])"
proof (induction ts arbitrary: w)
  case Nil
  then show ?case by simp
next
  case (Cons t0 rest)
  from Cons.prems(1) obtain rt0 out where s:
    "prefix td t0"
    "render_template e td (drop (length td) t0) c = Inr rt0"
    "target_path_for (drop (length td) t0) od = Inr out"
    "render_loop e c td od rest
       (print_line (''Wrote '' @ path_str out)
         (write_text out (strip rt0 @ [newline]) (ensure_dir (parent out) w))) = (Inr (), w')"
    by (rule render_loop_Cons_success)
  from Cons.prems(2) have j: "path_suffix t0 = ''.j2''" "\<forall>t\<in>set rest. path_suffix t = ''.j2''"
    by simp_all
  note o = target_path_for_expected [OF s(1) j(1) s(3)]
  show ?case
  proof (cases "t \<in> set rest")
    case True
    from Cons.IH [OF s(4) j(2) True Cons.prems(4)] show ?thesis .
  next
    case False
    with Cons.prems(3) have t: "t = t0" by simp
    have "expected_output td od t0 \<notin> expected_output td od ` set rest"
    proof
      assume "expected_output td od t0 \<in> expected_output td od ` set rest"
      then obtain t' where t': "t' \<in> set rest" "expected_output td od t0 = expected_output td od t'"
        by blast
      from render_loop_steps_ok [OF s(4) t'(1)] have k: "prefix td t'"
        "path_name (drop (length td) t') \<noteq> []" by blast+
      from j(2) t'(1) have "path_suffix t' = ''.j2''" by blast
      from expected_output_inj [OF s(1) o(2) j(1) k this t'(2)] have "t0 = t'" .
      with t'(1) False t show False by simp
    qed
    from render_loop_frame [OF s(4) j(2) this]
    have "files w' (expected_output td od t0) = Some (strip rt0 @ [newline])"
      by (simp add: files_step o(1) [symmetric])
    moreover from Cons.prems(4) s(2) t have "rt = rt0" by simp
    ultimately show ?thesis by (simp add: t)
  qed
qed

lemma discovered_suffix: "\<forall>t\<in>set (discover_templates e td). path_suffix t = ''.j2''"
  by (simp add: discover_templates_set)





section \<open>Properties of the driver\<close>

lemma render_loop_result_independent:
  "render_template e' = render_template e \<Longrightarrow>
   fst (render_loop e' c td od ts w2) = fst (render_loop e c td od ts w1)"
proof (induction ts arbitrary: w1 w2)
  case Nil
  show ?case by simp
next
  case (Cons t rest)
  show ?case
    by (simp add: Cons.prems split: sum.splits) (auto intro: Cons.IH [OF Cons.prems])
qed

lemma render_loop_same_reads:
  "render_template e' = render_template e \<Longrightarrow>
   render_loop e' c td od ts w = render_loop e c td od ts w"
  by (induction ts arbitrary: w) (simp_all split: sum.splits)

lemma render_all_same_reads:
  assumes "render_template e' = render_template e" and "is_file e' = is_file e"
    and "mset (glob_all e' td) = mset (glob_all e td)"
  shows "render_all e' d td od w = render_all e d td od w"
proof -
  from assms(2,3) have "discover_templates e' td = discover_templates e td"
    using discover_templates_permutation by blast
  then show ?thesis
    by (simp add: render_all_def Let_def render_loop_same_reads [OF assms(1)] split: pyval.splits)
qed

lemma main_same_reads:
  assumes "path_exists e' = path_exists e" and "is_file e' = is_file e"
    and "safe_load_file e' = safe_load_file e" and "render_template e' = render_template e"
    and "mset (glob_all e' (args_templates a)) = mset (glob_all e (args_templates a))"
  shows "main e' a w = main e a w"
  by (simp add: main_def assms(1,3) render_all_same_reads [OF assms(4,2,5)] split: sum.splits)

lemma render_loop_rerun:
  assumes "render_loop e c td od ts w = (Inr (), w1)"
    and "\<forall>t\<in>set ts. path_suffix t = ''.j2''"
    and "files v = files w1"
  shows "\<exists>w2. render_loop e c td od ts v = (Inr (), w2) \<and> files w2 = files w1"
proof -
  have "fst (render_loop e c td od ts v) = fst (render_loop e c td od ts w)"
    by (rule render_loop_result_independent) simp
  with assms(1) have "fst (render_loop e c td od ts v) = Inr ()" by simp
  then obtain w2 where w2: "render_loop e c td od ts v = (Inr (), w2)"
    by (metis prod.collapse)
  have "files w2 p = files w1 p" for p
  proof (cases "p \<in> expected_output td od ` set ts")
    case False
    from render_loop_frame [OF w2 assms(2) False] assms(3) show ?thesis by simp
  next
    case True
    then obtain t where t: "t \<in> set ts" "p = expected_output td od t" by blast
    from render_loop_steps_ok [OF w2 t(1)] obtain rt where
      rt: "render_template e td (drop (length td) t) c = Inr rt" by blast
    from render_loop_written [OF w2 assms(2) t(1) rt]
      render_loop_written [OF assms(1,2) t(1) rt]
    show ?thesis by (simp add: t(2))
  qed
  then have "files w2 = files w1" by (rule ext)
  with w2 show ?thesis by blast
qed

lemma main_success_cases:
  assumes "main e a w = (Inr 0, w1)"
  obtains doc ctx where
    "path_exists e (args_product a)" "path_exists e (args_templates a)"
    "load_yaml (safe_load_file e) (args_product a) = Inr doc"
    "apply_overrides_to doc (args_overrides a) = Inr (PDict ctx)"
    "render_all e (PDict ctx) (args_templates a) (args_out a) w = (Inr (), w1)"
proof -
  from assms have p: "path_exists e (args_product a)" "path_exists e (args_templates a)"
    by (auto simp: main_def split: if_splits)
  from assms p obtain doc where d: "load_yaml (safe_load_file e) (args_product a) = Inr doc"
    by (auto simp: main_def split: sum.splits)
  from assms p d obtain data where o: "apply_overrides_to doc (args_overrides a) = Inr data"
    by (auto simp: main_def split: sum.splits)
  from assms p d o have r: "render_all e data (args_templates a) (args_out a) w = (Inr (), w1)"
    by (auto simp: main_def split: sum.splits prod.splits)
  then obtain ctx where "data = PDict ctx"
    by (cases data) (auto simp: render_all_def)
  with p d o r that show ?thesis by blast
qed

lemma main_rerun:
  assumes "main e a w = (Inr 0, w1)"
  shows "\<exists>w2. main e a w1 = (Inr 0, w2) \<and> files w2 = files w1"
proof -
  from assms obtain doc ctx where s:
    "path_exists e (args_product a)" "path_exists e (args_templates a)"
    "load_yaml (safe_load_file e) (args_product a) = Inr doc"
    "apply_overrides_to doc (args_overrides a) = Inr (PDict ctx)"
    "render_all e (PDict ctx) (args_templates a) (args_out a) w = (Inr (), w1)"
    by (rule main_success_cases)
  let ?ts = "discover_templates e (args_templates a)"
  from s(5) have l: "render_loop e ctx (args_templates a) (args_out a) ?ts
      (ensure_dir (args_out a) w) = (Inr (), w1)"
    by (simp add: render_all_def)
  have f: "files (ensure_dir (args_out a) w1) = files w1" by (simp add: ensure_dir_def)
  from render_loop_rerun [OF l discovered_suffix f] obtain w2 where
    w2: "render_loop e ctx (args_templates a) (args_out a) ?ts
      (ensure_dir (args_out a) w1) = (Inr (), w2)" "files w2 = files w1" by blast
  then have "main e a w1 = (Inr 0, w2)"
    by (simp add: main_def s(1-4) render_all_def)
  with w2(2) show ?thesis by blast
qed

text \<open>
  \<^bold>\<open>Claim C6.\<close> When the configuration path does not exist, or it exists and the template
  root does not, \<open>main\<close> returns 2 and the only change is one diagnostic line appended to
  the error stream: no file is written, no directory made, nothing printed to the output
  stream. The result is the same whatever the loader, the enumeration and the template
  engine would do, so none of them has been consulted.
\<close>

theorem main_missing_input_exits_2:
  "(\<not> path_exists e (args_product a) \<longrightarrow>
      main e a w = (Inr 2,
        print_error (''ERROR: product file not found: '' @ path_str (args_product a)) w))
   \<and> (path_exists e (args_product a) \<and> \<not> path_exists e (args_templates a) \<longrightarrow>
      main e a w = (Inr 2,
        print_error (''ERROR: templates dir not found: '' @ path_str (args_templates a)) w))
   \<and> (\<not> path_exists e (args_product a) \<or> \<not> path_exists e (args_templates a) \<longrightarrow>
        fst (main e a w) = Inr 2
        \<and> files (snd (main e a w)) = files w
        \<and> dirs (snd (main e a w)) = dirs w
        \<and> stdout (snd (main e a w)) = stdout w
        \<and> length (stderr (snd (main e a w))) = Suc (length (stderr w))
        \<and> main (e\<lparr>glob_all := g, is_file := f, safe_load_file := l, render_template := r\<rparr>) a w
            = main e a w)"
  by (auto simp: main_def print_error_def)

theorem main_missing_input_exits_2_witness:
  "\<not> path_exists (example_env\<lparr>path_exists := (\<lambda>p. p \<noteq> [''marketing'', ''product.yaml''])\<rparr>)
       (args_product example_args)
   \<and> main (example_env\<lparr>path_exists := (\<lambda>p. p \<noteq> [''marketing'', ''product.yaml''])\<rparr>)
        example_args empty_world
      = (Inr 2, print_error ''ERROR: product file not found: marketing/product.yaml'' empty_world)
   \<and> files (snd (main (example_env\<lparr>path_exists := (\<lambda>p. p \<noteq> [''marketing'', ''product.yaml''])\<rparr>)
        example_args empty_world)) = Map.empty"
proof -
  let ?e = "example_env\<lparr>path_exists := (\<lambda>p. p \<noteq> [''marketing'', ''product.yaml''])\<rparr>"
  have n: "\<not> path_exists ?e (args_product example_args)"
    by (simp add: example_args_def)
  have s: "''ERROR: product file not found: '' @ path_str (args_product example_args)
      = ''ERROR: product file not found: marketing/product.yaml''"
    by code_simp
  note t = main_missing_input_exits_2 [of ?e example_args empty_world]
  from t n have "main ?e example_args empty_world = (Inr 2,
      print_error (''ERROR: product file not found: '' @ path_str (args_product example_args))
        empty_world)"
    by blast
  then have m: "main ?e example_args empty_world
      = (Inr 2, print_error ''ERROR: product file not found: marketing/product.yaml'' empty_world)"
    unfolding s .
  from t n have "files (snd (main ?e example_args empty_world)) = files empty_world"
    by blast
  then have f: "files (snd (main ?e example_args empty_world)) = Map.empty"
    by (simp add: empty_world_def)
  from n m f show ?thesis by (intro conjI)
qed

text \<open>
  \<^bold>\<open>Claim C9.\<close> Two runs that read the same inputs (the same existence and file tests,
  the same configuration document, the same renderings, the same template files
  enumerated in any order), with the same command line, from the same state end in the
  same result and the same state. A second run after a successful first one succeeds
  too and leaves every file with the content the first run gave it. The template engine
  is taken to render a template under a context to one text.
\<close>

theorem main_runs_are_reproducible:
  assumes "path_exists e' = path_exists e" and "is_file e' = is_file e"
    and "safe_load_file e' = safe_load_file e" and "render_template e' = render_template e"
    and "mset (glob_all e' (args_templates a)) = mset (glob_all e (args_templates a))"
  shows "main e' a w = main e a w
       \<and> (\<forall>w1. main e a w = (Inr 0, w1) \<longrightarrow>
             (\<exists>w2. main e' a w1 = (Inr 0, w2) \<and> files w2 = files w1))"
proof (intro conjI allI impI)
  show "main e' a w = main e a w" using assms by (rule main_same_reads)
next
  fix w1
  assume "main e a w = (Inr 0, w1)"
  from main_rerun [OF this] obtain w2 where "main e a w1 = (Inr 0, w2)" "files w2 = files w1"
    by blast
  moreover have "main e' a w1 = main e a w1" using assms by (rule main_same_reads)
  ultimately show "\<exists>w2. main e' a w1 = (Inr 0, w2) \<and> files w2 = files w1" by simp
qed

lemma example_main_ok: "fst (main example_env example_args empty_world) = Inr 0"
  by code_simp

theorem main_runs_are_reproducible_witness:
  "mset (glob_all (example_env\<lparr>glob_all := (\<lambda>root. rev (glob_all example_env root))\<rparr>)
       (args_templates example_args))
     = mset (glob_all example_env (args_templates example_args))
   \<and> fst (main example_env example_args empty_world) = Inr 0
   \<and> main (example_env\<lparr>glob_all := (\<lambda>root. rev (glob_all example_env root))\<rparr>)
        example_args empty_world
     = main example_env example_args empty_world
   \<and> fst (main (example_env\<lparr>glob_all := (\<lambda>root. rev (glob_all example_env root))\<rparr>)
        example_args (snd (main example_env example_args empty_world))) = Inr 0
   \<and> files (snd (main (example_env\<lparr>glob_all := (\<lambda>root. rev (glob_all example_env root))\<rparr>)
        example_args (snd (main example_env example_args empty_world))))
     = files (snd (main example_env example_args empty_world))"
proof -
  let ?e' = "example_env\<lparr>glob_all := (\<lambda>root. rev (glob_all example_env root))\<rparr>"
  let ?w1 = "snd (main example_env example_args empty_world)"
  have 1: "path_exists ?e' = path_exists example_env" by simp
  have 2: "is_file ?e' = is_file example_env" by simp
  have 3: "safe_load_file ?e' = safe_load_file example_env" by simp
  have 4: "render_template ?e' = render_template example_env" by simp
  have 5: "mset (glob_all ?e' (args_templates example_args))
      = mset (glob_all example_env (args_templates example_args))" by simp
  note t = main_runs_are_reproducible [OF 1 2 3 4 5, of empty_world]
  have ok: "fst (main example_env example_args empty_world) = Inr 0" by (rule example_main_ok)
  then have r: "main example_env example_args empty_world = (Inr 0, ?w1)"
    by (metis prod.collapse)
  from t have a: "main ?e' example_args empty_world = main example_env example_args empty_world"
    by (rule conjunct1)
  from t r obtain w2 where w2: "main ?e' example_args ?w1 = (Inr 0, w2)" "files w2 = files ?w1"
    by blast
  then have b: "fst (main ?e' example_args ?w1) = Inr 0"
    and c: "files (snd (main ?e' example_args ?w1)) = files ?w1" by simp_all
  from 5 ok a b c show ?thesis by (intro conjI)
qed

end
